theory Spec2Isabelle
  imports Complex_Main "HOL-Library.Sublist" "HOL-Library.Code_Target_Nat"
begin

section \<open>Strings\<close>

text \<open>
  A Python \<open>str\<close> is a sequence of Unicode code points, and several of the patterns of
  \<open>renamer.py\<close> name CJK characters, so a string is modelled as a list of code points
  (natural numbers); \<open>length\<close> then counts what Python's \<open>len\<close> counts.
  \<open>cp c\<close> is the code point of an ASCII character and \<open>ustr_of\<close> turns an ASCII
  literal into such a string.
\<close>

type_synonym ustr = "nat list"

abbreviation cp :: "char \<Rightarrow> nat" where
  "cp c \<equiv> of_char c"

definition ustr_of :: "string \<Rightarrow> ustr" where
  "ustr_of s = map of_char s"

text \<open>\<open>str.startswith\<close>, \<open>str.endswith\<close> and \<open>str.replace\<close> on a single character.\<close>

definition startswith :: "ustr \<Rightarrow> ustr \<Rightarrow> bool" where
  "startswith s pre = (take (length pre) s = pre)"

definition endswith :: "ustr \<Rightarrow> ustr \<Rightarrow> bool" where
  "endswith s suf = (length suf \<le> length s \<and> drop (length s - length suf) s = suf)"

definition replace_char :: "nat \<Rightarrow> nat \<Rightarrow> ustr \<Rightarrow> ustr" where
  "replace_char a b s = map (\<lambda>c. if c = a then b else c) s"

text \<open>
  \<open>s.rpartition("/")\<close>: the text before and after the last slash, \<open>None\<close> when the
  string has no slash (Python then returns \<open>('', '', s)\<close>).
\<close>

fun rpartition_slash :: "ustr \<Rightarrow> (ustr \<times> ustr) option" where
  "rpartition_slash [] = None"
| "rpartition_slash (c # cs) =
     (case rpartition_slash cs of
        Some (h, t) \<Rightarrow> Some (c # h, t)
      | None \<Rightarrow> if c = cp CHR ''/'' then Some ([], cs) else None)"

section \<open>Path algebra (\<open>norm_path\<close>, \<open>join_path\<close>, \<open>split_path\<close>)\<close>

definition norm_path :: "ustr \<Rightarrow> ustr" where
  "norm_path p =
     (if p = [] then [cp CHR ''/'']
      else
        let p1 = replace_char (cp CHR 0x5C) (cp CHR ''/'') p;
            p2 = (if \<not> startswith p1 [cp CHR ''/''] then cp CHR ''/'' # p1 else p1);
            p3 = (if p2 \<noteq> [cp CHR ''/''] \<and> endswith p2 [cp CHR ''/''] then butlast p2 else p2)
        in p3)"

definition join_path :: "ustr \<Rightarrow> ustr \<Rightarrow> ustr" where
  "join_path dir_path name =
     (let d = norm_path dir_path
      in if d = [cp CHR ''/''] then cp CHR ''/'' # name else d @ [cp CHR ''/''] @ name)"

definition split_path :: "ustr \<Rightarrow> ustr \<times> ustr" where
  "split_path p =
     (let q = norm_path p
      in if q = [cp CHR ''/''] then ([cp CHR ''/''], [])
         else
           (case rpartition_slash q of
              None \<Rightarrow> ([cp CHR ''/''], q)
            | Some (parent, base) \<Rightarrow> (if parent \<noteq> [] then parent else [cp CHR ''/''], base)))"

section \<open>Character classes and string methods of the Python runtime\<close>

text \<open>
  \<open>str.isspace\<close>, \<open>str.strip()\<close> and the pattern \<open>\s\<close> share one set of white-space
  characters; it is listed in full.
\<close>

definition is_space :: "nat \<Rightarrow> bool" where
  "is_space c \<longleftrightarrow>
     (9 \<le> c \<and> c \<le> 13) \<or> (28 \<le> c \<and> c \<le> 32) \<or> c = 0x85 \<or> c = 0xA0 \<or> c = 0x1680 \<or>
     (0x2000 \<le> c \<and> c \<le> 0x200A) \<or> c = 0x2028 \<or> c = 0x2029 \<or> c = 0x202F \<or>
     c = 0x205F \<or> c = 0x3000"

text \<open>
  The pattern \<open>\d\<close> and \<open>int()\<close> accept the decimal digits of every script: blocks of
  ten consecutive code points with the values 0 to 9. \<open>digit_blocks\<close> lists the first code
  point of each block (Unicode 14, as in CPython 3.11).
\<close>

definition digit_blocks :: "nat list" where
  "digit_blocks =
     [0x30, 0x660, 0x6f0, 0x7c0, 0x966, 0x9e6, 0xa66, 0xae6, 0xb66, 0xbe6, 0xc66, 0xce6, 0xd66,
      0xde6, 0xe50, 0xed0, 0xf20, 0x1040, 0x1090, 0x17e0, 0x1810, 0x1946, 0x19d0, 0x1a80, 0x1a90,
      0x1b50, 0x1bb0, 0x1c40, 0x1c50, 0xa620, 0xa8d0, 0xa900, 0xa9d0, 0xa9f0, 0xaa50, 0xabf0,
      0xff10, 0x104a0, 0x10d30, 0x11066, 0x110f0, 0x11136, 0x111d0, 0x112f0, 0x11450, 0x114d0,
      0x11650, 0x116c0, 0x11730, 0x118e0, 0x11950, 0x11c50, 0x11d50, 0x11da0, 0x16a60, 0x16ac0,
      0x16b50, 0x1d7ce, 0x1d7d8, 0x1d7e2, 0x1d7ec, 0x1d7f6, 0x1e140, 0x1e2f0, 0x1e950, 0x1fbf0]"

definition digit_value :: "nat \<Rightarrow> nat option" where
  "digit_value c =
     (case List.find (\<lambda>b. b \<le> c \<and> c < b + 10) digit_blocks of
        None \<Rightarrow> None
      | Some b \<Rightarrow> Some (c - b))"


text \<open>\<open>int(s)\<close> on a string of decimal digits (only ever applied to text matched by \<open>\d\<close>).\<close>

definition int_of_digits :: "ustr \<Rightarrow> nat" where
  "int_of_digits s = foldl (\<lambda>acc c. 10 * acc + (case digit_value c of Some v \<Rightarrow> v | None \<Rightarrow> 0)) 0 s"

text \<open>
  The pattern \<open>\w\<close> (used through \<open>\b\<close>) is every alphanumeric character and the
  underscore. The table below holds the principal ranges of that class: ASCII, Latin, Greek,
  Cyrillic, kana, the CJK ideographs, Hangul and the full-width letters and digits; the rarer
  scripts are left out, which is the one place where the model reads a character class more
  narrowly than the runtime does.
\<close>

definition word_ranges :: "(nat \<times> nat) list" where
  "word_ranges =
     [(0x30, 0x39), (0x41, 0x5a), (0x5f, 0x5f), (0x61, 0x7a), (0x4e00, 0xa48c),
      (0xaa, 0xaa), (0xb2, 0xb3), (0xb5, 0xb5), (0xb9, 0xba), (0xbc, 0xbe), (0xc0, 0xd6),
      (0xd8, 0xf6), (0xf8, 0x2c1), (0x3a3, 0x3f5), (0x3f7, 0x481), (0x48a, 0x52f),
      (0x3041, 0x3096), (0x30a1, 0x30fa), (0x3400, 0x4dbf), (0xac00, 0xd7a3), (0xf900, 0xfa6d),
      (0xff10, 0xff19), (0xff21, 0xff3a), (0xff41, 0xff5a), (0xff66, 0xffbe)]"

definition is_word :: "nat \<Rightarrow> bool" where
  "is_word c \<longleftrightarrow> list_ex (\<lambda>(lo, hi). lo \<le> c \<and> c \<le> hi) word_ranges"


text \<open>
  \<open>str.lower()\<close>: the ASCII capitals, and the two characters outside ASCII whose lower case
  is or contains an ASCII letter (U+0130 becomes \<open>i\<close> followed by U+0307, the Kelvin sign
  U+212A becomes \<open>k\<close>). Other cased letters are left as they are.
\<close>

definition lower_char :: "nat \<Rightarrow> ustr" where
  "lower_char c =
     (if 0x41 \<le> c \<and> c \<le> 0x5a then [c + 32]
      else if c = 0x130 then [0x69, 0x307]
      else if c = 0x212A then [0x6b]
      else [c])"

definition lower :: "ustr \<Rightarrow> ustr" where
  "lower s = concat (map lower_char s)"

text \<open>
  A letter of a pattern compiled with \<open>(?i)\<close>: the letter in either case, and for \<open>s\<close>
  also the long s U+017F, which the \<open>re\<close> module treats as its equivalent. The argument is
  the lower-case ASCII letter.
\<close>

definition ci :: "char \<Rightarrow> nat \<Rightarrow> bool" where
  "ci l c \<longleftrightarrow> c = cp l \<or> c + 32 = cp l \<or> (l = CHR ''s'' \<and> c = 0x17F)"


definition lstrip :: "ustr \<Rightarrow> ustr" where
  "lstrip s = dropWhile is_space s"

definition rstrip :: "ustr \<Rightarrow> ustr" where
  "rstrip s = rev (dropWhile is_space (rev s))"

definition strip :: "ustr \<Rightarrow> ustr" where
  "strip s = rstrip (lstrip s)"

text \<open>\<open>sub in s\<close> for strings.\<close>

fun contains :: "ustr \<Rightarrow> ustr \<Rightarrow> bool" where
  "contains [] sub = (sub = [])"
| "contains (c # cs) sub = (startswith (c # cs) sub \<or> contains cs sub)"

text \<open>\<open>str(n)\<close> and the format \<open>{n:02d}\<close> for a non-negative integer.\<close>

fun str_of_nat :: "nat \<Rightarrow> ustr" where
  "str_of_nat n = (if n < 10 then [48 + n] else str_of_nat (n div 10) @ [48 + n mod 10])"

definition fmt_02d :: "nat \<Rightarrow> ustr" where
  "fmt_02d n = (if n < 10 then 48 # str_of_nat n else str_of_nat n)"

text \<open>
  \<open>os.path.basename\<close> and \<open>os.path.splitext\<close> of \<open>posixpath\<close>. \<open>rfind c s\<close> is the index
  of the last \<open>c\<close> in \<open>s\<close>, or \<open>-1\<close>. \<open>splitext\<close> splits at the last dot when that dot
  comes after the last slash and some character between the two is not a dot (the library
  walks over the leading dots in a loop and returns at the first other character).
\<close>

definition rfind :: "nat \<Rightarrow> ustr \<Rightarrow> int" where
  "rfind c s =
     (case List.find (\<lambda>i. s ! i = c) (rev [0..<length s]) of
        None \<Rightarrow> - 1
      | Some i \<Rightarrow> int i)"


definition splitext :: "ustr \<Rightarrow> ustr \<times> ustr" where
  "splitext p =
     (let sepIndex = rfind (cp CHR ''/'') p;
          dotIndex = rfind (cp CHR ''.'') p
      in if dotIndex > sepIndex \<and>
            list_ex (\<lambda>k. p ! k \<noteq> cp CHR ''.'') [nat (sepIndex + 1)..<nat dotIndex]
         then (take (nat dotIndex) p, drop (nat dotIndex) p)
         else (p, []))"

section \<open>Regular expressions\<close>

text \<open>
  The patterns of the source are kept as data and run by one matcher that follows the
  \<open>re\<close> module: the leftmost match, greedy repetition, alternatives tried in order, with
  backtracking. \<open>matches x b r\<close> gives, in the order in which the backtracking engine would
  try them, every way in which \<open>x\<close> matches a prefix of \<open>r\<close> when the text before it,
  reversed, is \<open>b\<close>: the number of characters consumed and the groups captured. Repetition
  is only ever applied to a character class in the source, so \<open>Star\<close> takes a class.
\<close>

datatype re =
    Atom "nat \<Rightarrow> bool"
  | Eps
  | Seq re re
  | Alt re re
  | Star "nat \<Rightarrow> bool"
  | Grp re
  | Bol
  | Eol
  | Wb
  | Ahead re
  | NotAhead re
  | NotBehind "nat \<Rightarrow> bool"

definition word_at :: "ustr \<Rightarrow> bool" where
  "word_at s = (case s of [] \<Rightarrow> False | c # _ \<Rightarrow> is_word c)"

fun matches :: "re \<Rightarrow> ustr \<Rightarrow> ustr \<Rightarrow> (nat \<times> ustr list) list" where
  "matches (Atom P) b r = (case r of [] \<Rightarrow> [] | c # _ \<Rightarrow> if P c then [(1, [])] else [])"
| "matches Eps b r = [(0, [])]"
| "matches (Seq x y) b r =
     concat (map (\<lambda>(n1, g1).
                    map (\<lambda>(n2, g2). (n1 + n2, g1 @ g2))
                        (matches y (rev (take n1 r) @ b) (drop n1 r)))
                 (matches x b r))"
| "matches (Alt x y) b r = matches x b r @ matches y b r"
| "matches (Star P) b r = map (\<lambda>k. (k, [])) (rev [0..<Suc (length (takeWhile P r))])"
| "matches (Grp x) b r = map (\<lambda>(n, g). (n, take n r # g)) (matches x b r)"
| "matches Bol b r = (if b = [] then [(0, [])] else [])"
| "matches Eol b r = (if r = [] \<or> r = [10] then [(0, [])] else [])"
| "matches Wb b r = (if word_at b \<noteq> word_at r then [(0, [])] else [])"
| "matches (Ahead x) b r = (if matches x b r \<noteq> [] then [(0, [])] else [])"
| "matches (NotAhead x) b r = (if matches x b r = [] then [(0, [])] else [])"
| "matches (NotBehind P) b r = (case b of [] \<Rightarrow> [(0, [])] | c # _ \<Rightarrow> if P c then [] else [(0, [])])"

text \<open>Building blocks: a literal, a class, \<open>x?\<close>, \<open>c+\<close>, \<open>x{lo,hi}\<close> and a literal word.\<close>

definition Chr :: "nat \<Rightarrow> re" where
  "Chr c = Atom (\<lambda>x. x = c)"


definition NoneOf :: "ustr \<Rightarrow> re" where
  "NoneOf cs = Atom (\<lambda>x. x \<notin> set cs)"


definition Plus :: "(nat \<Rightarrow> bool) \<Rightarrow> re" where
  "Plus P = Seq (Atom P) (Star P)"



fun Lit :: "ustr \<Rightarrow> re" where
  "Lit [] = Eps"
| "Lit (c # cs) = Seq (Chr c) (Lit cs)"


text \<open>
  \<open>re.search\<close>: the first position, from the left, at which the pattern matches, and the
  first way in which it matches there. The result is the start, the end and the groups.
\<close>

fun search_from :: "re \<Rightarrow> ustr \<Rightarrow> ustr \<Rightarrow> (nat \<times> nat \<times> ustr list) option" where
  "search_from x b [] =
     (case matches x b [] of
        [] \<Rightarrow> None
      | (n, g) # _ \<Rightarrow> Some (length b, length b + n, g))"
| "search_from x b (c # r) =
     (case matches x b (c # r) of
        [] \<Rightarrow> search_from x (c # b) r
      | (n, g) # _ \<Rightarrow> Some (length b, length b + n, g))"

definition re_search :: "re \<Rightarrow> ustr \<Rightarrow> (nat \<times> nat \<times> ustr list) option" where
  "re_search x s = search_from x [] s"


text \<open>
  \<open>re.sub\<close> with a constant replacement, and \<open>re.findall\<close> for a pattern with one group:
  the matches are taken from left to right without overlap; after an empty match the scan
  moves on by one character.
\<close>

function sub_from :: "re \<Rightarrow> ustr \<Rightarrow> ustr \<Rightarrow> ustr \<Rightarrow> ustr" where
  "sub_from x repl b [] = (if matches x b [] \<noteq> [] then repl else [])"
| "sub_from x repl b (c # r) =
     (case matches x b (c # r) of
        [] \<Rightarrow> c # sub_from x repl (c # b) r
      | (n, g) # _ \<Rightarrow>
          if n = 0 then repl @ c # sub_from x repl (c # b) r
          else repl @ sub_from x repl (rev (take n (c # r)) @ b) (drop n (c # r)))"
  by pat_completeness auto
termination
  by (relation "measure (\<lambda>(x, repl, b, r). length r)") auto

definition re_sub :: "re \<Rightarrow> ustr \<Rightarrow> ustr \<Rightarrow> ustr" where
  "re_sub x repl s = sub_from x repl [] s"



text \<open>
  What a pattern means, stated without an algorithm: \<open>denotes x b w r g\<close> says that \<open>x\<close>
  matches the word \<open>w\<close> when the text before it, reversed, is \<open>b\<close> and the text after it
  is \<open>r\<close>, and that the groups then hold \<open>g\<close>. The matcher is compared with it below.
\<close>

fun denotes :: "re \<Rightarrow> ustr \<Rightarrow> ustr \<Rightarrow> ustr \<Rightarrow> ustr list \<Rightarrow> bool" where
  "denotes (Atom P) b w r g = ((\<exists>c. w = [c] \<and> P c) \<and> g = [])"
| "denotes Eps b w r g = (w = [] \<and> g = [])"
| "denotes (Seq x y) b w r g =
     (\<exists>w1 w2 g1 g2. w = w1 @ w2 \<and> g = g1 @ g2 \<and> denotes x b w1 (w2 @ r) g1 \<and>
                     denotes y (rev w1 @ b) w2 r g2)"
| "denotes (Alt x y) b w r g = (denotes x b w r g \<or> denotes y b w r g)"
| "denotes (Star P) b w r g = (list_all P w \<and> g = [])"
| "denotes (Grp x) b w r g = (\<exists>g'. g = w # g' \<and> denotes x b w r g')"
| "denotes Bol b w r g = (w = [] \<and> g = [] \<and> b = [])"
| "denotes Eol b w r g = (w = [] \<and> g = [] \<and> (r = [] \<or> r = [10]))"
| "denotes Wb b w r g = (w = [] \<and> g = [] \<and> word_at b \<noteq> word_at r)"
| "denotes (Ahead x) b w r g = (w = [] \<and> g = [] \<and> (\<exists>u v g'. r = u @ v \<and> denotes x b u v g'))"
| "denotes (NotAhead x) b w r g =
     (w = [] \<and> g = [] \<and> \<not> (\<exists>u v g'. r = u @ v \<and> denotes x b u v g'))"
| "denotes (NotBehind P) b w r g = (w = [] \<and> g = [] \<and> \<not> (\<exists>c b'. b = c # b' \<and> P c))"

section \<open>Name parsing (\<open>renamer.py\<close>)\<close>

definition Seqs :: "re list \<Rightarrow> re" where
  "Seqs xs = foldr Seq xs Eps"







definition to_halfwidth :: "ustr \<Rightarrow> ustr" where
  "to_halfwidth s =
     map (\<lambda>code. if code = 0x3000 then 32
                  else if 0xFF01 \<le> code \<and> code \<le> 0xFF5E then code - 0xFEE0
                  else code) s"


definition normalize_spaces :: "ustr \<Rightarrow> ustr" where
  "normalize_spaces s = strip (re_sub (Plus is_space) [32] (replace_char 0xA0 32 s))"

definition unsafe_char :: "nat \<Rightarrow> bool" where
  "unsafe_char c \<longleftrightarrow> c \<in> set (ustr_of ''<>:\"/|?*'') \<or> c = cp CHR 0x5C \<or> c \<le> 0x1f"

definition safe_filename :: "ustr \<Rightarrow> ustr" where
  "safe_filename name = strip (re_sub (Atom unsafe_char) [32] name)"




text \<open>Group \<open>k\<close> (counted from 1) of a match.\<close>

definition group :: "ustr list \<Rightarrow> nat \<Rightarrow> ustr" where
  "group g k = (if 0 < k \<and> k \<le> length g then g ! (k - 1) else [])"

subsection \<open>The patterns\<close>

















subsection \<open>\<open>parse_season_from_text\<close>\<close>



subsection \<open>\<open>parse_episode_from_name\<close>\<close>



subsection \<open>\<open>extract_resolution\<close> and \<open>build_new_video_name\<close>\<close>

text \<open>\<open>_RES_RE = (?i)\b(4320|2160|1440|1080|720|576|540|480)p\b\<close>\<close>

definition RES_RE :: re where
  "RES_RE = Seqs [Wb,
                  Grp (foldr Alt (map (\<lambda>s. Lit (ustr_of s))
                                     [''4320'', ''2160'', ''1440'', ''1080'', ''720'', ''576'', ''540''])
                             (Lit (ustr_of ''480''))),
                  Atom (ci CHR ''p''), Wb]"

definition extract_resolution :: "ustr \<Rightarrow> ustr" where
  "extract_resolution text =
     (if text = [] then []
      else case re_search RES_RE text of
             Some (_, _, g) \<Rightarrow> str_of_nat (int_of_digits (group g 1)) @ ustr_of ''p''
           | None \<Rightarrow>
               let low = lower (to_halfwidth text)
               in if contains low (ustr_of ''8k'') then ustr_of ''4320p''
                  else if contains low (ustr_of ''4k'') \<or> contains low (ustr_of ''uhd'')
                    then ustr_of ''2160p''
                  else [])"

definition build_new_video_name :: "ustr \<Rightarrow> nat \<Rightarrow> nat \<Rightarrow> ustr \<Rightarrow> ustr \<Rightarrow> ustr" where
  "build_new_video_name series season episode old_name quality =
     (let ext = snd (splitext old_name);
          base = series @ ustr_of '' - S'' @ fmt_02d season @ ustr_of ''E'' @ fmt_02d episode;
          res = extract_resolution (old_name @ [32] @ quality);
          base = (if res \<noteq> [] then base @ ustr_of '' - '' @ res else base)
      in safe_filename (normalize_spaces base) @ ext)"

definition VIDEO_EXTS :: "ustr list" where
  "VIDEO_EXTS = map ustr_of [''.mp4'', ''.mkv'', ''.avi'', ''.mov'', ''.wmv'', ''.flv'', ''.m4v'',
                             ''.ts'', ''.m2ts'', ''.webm'']"

section \<open>The remote file system and the operations on it\<close>

text \<open>
  \<open>DirEntry\<close> is the source's dataclass. The remote side (the AList server behind
  \<open>AlistClient\<close>) is not part of the program: it is a state of some type \<open>'fs\<close> with a
  listing function and a function that carries out one mutating call; either may fail, which
  is the exception that \<open>AlistClient.post\<close> raises after its retries. Every property below
  holds for any such collaborator.
\<close>

record DirEntry =
  ent_name :: ustr
  is_dir :: bool

datatype fs_call =
    Mkdir ustr
  | Rename ustr ustr
  | Move ustr ustr "ustr list"
  | Remove ustr "ustr list"

datatype error =
    CollaboratorError | AttributeError | NameError | ValueError | FileNotFoundError | RuntimeError

record 'fs client =
  list_dir :: "'fs \<Rightarrow> ustr \<Rightarrow> DirEntry list option"
  exec :: "'fs \<Rightarrow> fs_call \<Rightarrow> 'fs option"

text \<open>
  The records of the undo ledger (\<open>UndoLogger.record\<close>); the time stamp, which no reader of
  the ledger uses, is left out.
\<close>

datatype OperationRecord =
    RenamePath ustr ustr ustr    \<comment> \<open>parent, old, new\<close>
  | MoveRec ustr ustr "ustr list" \<comment> \<open>src_dir, dst_dir, names\<close>

text \<open>The lines that the operations append to the run log, one constructor per format string.\<close>

datatype log_line =
    LogDryMkdir ustr
  | LogMkdir ustr
  | LogSkipConflict ustr ustr
  | LogInfoConflict ustr ustr
  | LogDryRename ustr ustr
  | LogRename ustr ustr
  | LogDryMove "ustr list" ustr ustr
  | LogMove "ustr list" ustr ustr
  | LogSkipMoveConflict ustr ustr ustr
  | LogInfoMoveConflict ustr ustr
  | LogSkipResume ustr
  | LogProcess ustr
  | LogError ustr
  | LogStop

text \<open>
  What a run changes: the remote state, the mutating calls made to the collaborator (in
  order, whether they succeeded or not), the undo ledger and the run log.
\<close>

record 'fs world =
  remote :: 'fs
  calls :: "fs_call list"
  undo_log :: "OperationRecord list"
  log_lines :: "log_line list"

text \<open>The environment variables that the operations read.\<close>

record env =
  ON_CONFLICT :: "ustr option"
  MOVE_INDIVIDUAL :: "ustr option"
  DELETE_ADS :: "ustr option"

definition conflict_mode :: "env \<Rightarrow> ustr" where
  "conflict_mode ev =
     lower (strip (case ON_CONFLICT ev of
                     None \<Rightarrow> ustr_of ''suffix''
                   | Some v \<Rightarrow> if v = [] then ustr_of ''suffix'' else v))"

definition move_individual :: "env \<Rightarrow> bool" where
  "move_individual ev \<longleftrightarrow>
     lower (strip (case MOVE_INDIVIDUAL ev of None \<Rightarrow> ustr_of ''1'' | Some v \<Rightarrow> v))
       \<in> set (map ustr_of [''1'', ''true'', ''yes'', ''y''])"

definition bool_env :: "ustr option \<Rightarrow> bool \<Rightarrow> bool" where
  "bool_env v dflt =
     (case v of
        None \<Rightarrow> dflt
      | Some s \<Rightarrow> lower (strip s) \<in> set (map ustr_of [''1'', ''true'', ''yes'', ''y'', ''on'']))"

text \<open>A mutating call: it is noted in \<open>calls\<close>, and it changes the remote state or raises.\<close>

definition do_call :: "'fs client \<Rightarrow> 'fs world \<Rightarrow> fs_call \<Rightarrow> 'fs world \<times> (error + unit)" where
  "do_call c w call =
     (case exec c (remote w) call of
        None \<Rightarrow> (w\<lparr>calls := calls w @ [call]\<rparr>, Inl CollaboratorError)
      | Some fs' \<Rightarrow> (w\<lparr>remote := fs', calls := calls w @ [call]\<rparr>, Inr ()))"

definition client_mkdir :: "'fs client \<Rightarrow> 'fs world \<Rightarrow> ustr \<Rightarrow> 'fs world \<times> (error + unit)" where
  "client_mkdir c w path = do_call c w (Mkdir (norm_path path))"

definition client_rename :: "'fs client \<Rightarrow> 'fs world \<Rightarrow> ustr \<Rightarrow> ustr \<Rightarrow> 'fs world \<times> (error + unit)" where
  "client_rename c w path new_name = do_call c w (Rename (norm_path path) new_name)"

definition client_move ::
  "'fs client \<Rightarrow> 'fs world \<Rightarrow> ustr \<Rightarrow> ustr \<Rightarrow> ustr list \<Rightarrow> 'fs world \<times> (error + unit)" where
  "client_move c w src_dir dst_dir names =
     (if names = [] then (w, Inr ())
      else do_call c w (Move (norm_path src_dir) (norm_path dst_dir) names))"

definition client_list_dir :: "'fs client \<Rightarrow> 'fs world \<Rightarrow> ustr \<Rightarrow> DirEntry list option" where
  "client_list_dir c w path = list_dir c (remote w) (norm_path path)"

text \<open>
  \<open>AlistClient\<close> has the method \<open>list_dir\<close> and no method \<open>listdir\<close>, and it defines no
  attribute hook; three functions of the source call \<open>client.listdir\<close>, which therefore
  raises \<open>AttributeError\<close> whatever the arguments are.
\<close>

definition client_listdir :: "'fs client \<Rightarrow> 'fs world \<Rightarrow> ustr \<Rightarrow> error + DirEntry list" where
  "client_listdir c w path = Inl AttributeError"

definition add_log :: "'fs world \<Rightarrow> log_line \<Rightarrow> 'fs world" where
  "add_log w l = w\<lparr>log_lines := log_lines w @ [l]\<rparr>"

text \<open>\<open>UndoLogger.record\<close>, when the caller holds a logger (\<open>if undo:\<close>).\<close>

definition undo_record :: "bool \<Rightarrow> 'fs world \<Rightarrow> OperationRecord \<Rightarrow> 'fs world" where
  "undo_record undo w r = (if undo then w\<lparr>undo_log := undo_log w @ [r]\<rparr> else w)"

subsection \<open>\<open>unique_name_in_parent\<close>\<close>

text \<open>The candidate \<open>f"{stem} ({i}){ext}"\<close>.\<close>

definition suffixed :: "ustr \<Rightarrow> nat \<Rightarrow> ustr" where
  "suffixed desired i =
     (let (stem, ext) = splitext desired
      in stem @ ustr_of '' ('' @ str_of_nat i @ ustr_of '')'' @ ext)"

definition existing_names :: "'fs client \<Rightarrow> 'fs world \<Rightarrow> ustr \<Rightarrow> ustr set" where
  "existing_names c w parent =
     (case client_list_dir c w parent of
        None \<Rightarrow> {}
      | Some entries \<Rightarrow> set (map ent_name entries))"

definition unique_name_in_parent :: "'fs client \<Rightarrow> env \<Rightarrow> 'fs world \<Rightarrow> ustr \<Rightarrow> ustr \<Rightarrow> ustr" where
  "unique_name_in_parent c ev w parent desired0 =
     (let mode = conflict_mode ev;
          desired = safe_filename desired0;
          existing = existing_names c w parent
      in if desired \<notin> existing then desired
         else if mode = ustr_of ''skip'' then []
         else case List.find (\<lambda>i. suffixed desired i \<notin> existing) [1..<200] of
                Some i \<Rightarrow> suffixed desired i
              | None \<Rightarrow> [])"

subsection \<open>\<open>ensure_dir\<close>, \<open>maybe_rename_path\<close>, \<open>maybe_rename\<close>\<close>

definition ensure_dir ::
  "'fs client \<Rightarrow> 'fs world \<Rightarrow> ustr \<Rightarrow> ustr \<Rightarrow> bool \<Rightarrow> 'fs world \<times> (error + ustr)" where
  "ensure_dir c w parent0 name0 dry_run =
     (let parent = norm_path parent0;
          nm = safe_filename name0;
          target = join_path parent nm
      in case client_list_dir c w parent of
           None \<Rightarrow> (w, Inl CollaboratorError)
         | Some entries \<Rightarrow>
             if list_ex (\<lambda>e. is_dir e \<and> ent_name e = nm) entries then (w, Inr target)
             else if dry_run then (add_log w (LogDryMkdir target), Inr target)
             else case client_mkdir c (add_log w (LogMkdir target)) target of
                    (w', Inl e) \<Rightarrow> (w', Inl e)
                  | (w', Inr _) \<Rightarrow> (w', Inr target))"

definition maybe_rename_path ::
  "'fs client \<Rightarrow> env \<Rightarrow> 'fs world \<Rightarrow> ustr \<Rightarrow> ustr \<Rightarrow> bool \<Rightarrow> bool \<Rightarrow> bool
     \<Rightarrow> 'fs world \<times> (error + ustr)" where
  "maybe_rename_path c ev w full_path new_name0 dry_run dry_return_new undo =
     (let (parent, old) = split_path full_path;
          new_name = safe_filename new_name0
      in if old = new_name \<or> old = [] then (w, Inr full_path)
         else
           let resolved = unique_name_in_parent c ev w parent new_name
           in if resolved = [] then (add_log w (LogSkipConflict full_path new_name), Inr full_path)
              else
                let w1 = (if resolved \<noteq> new_name then add_log w (LogInfoConflict new_name resolved)
                          else w)
                in if dry_run
                   then (add_log w1 (LogDryRename full_path resolved),
                         Inr (if dry_return_new then join_path parent resolved else full_path))
                   else case client_rename c (add_log w1 (LogRename full_path resolved))
                               full_path resolved of
                          (w2, Inl e) \<Rightarrow> (w2, Inl e)
                        | (w2, Inr _) \<Rightarrow>
                            (undo_record undo w2 (RenamePath parent old resolved),
                             Inr (join_path parent resolved)))"

definition maybe_rename ::
  "'fs client \<Rightarrow> env \<Rightarrow> 'fs world \<Rightarrow> ustr \<Rightarrow> ustr \<Rightarrow> ustr \<Rightarrow> bool \<Rightarrow> bool
     \<Rightarrow> 'fs world \<times> (error + ustr)" where
  "maybe_rename c ev w parent old_name new_name dry_run undo =
     maybe_rename_path c ev w (join_path parent old_name) new_name dry_run True undo"

subsection \<open>\<open>maybe_move\<close> and \<open>maybe_move_folder_to_dir\<close>\<close>

text \<open>
  The loop of \<open>maybe_move\<close> over the names, with the set \<open>dst_existing\<close> that it keeps.
  An exception of the collaborator leaves the loop.
\<close>

fun move_each ::
  "'fs client \<Rightarrow> env \<Rightarrow> ustr \<Rightarrow> ustr \<Rightarrow> bool \<Rightarrow> ustr set \<Rightarrow> 'fs world \<Rightarrow> ustr list
     \<Rightarrow> 'fs world \<times> (error + unit)" where
  "move_each c ev src_dir dst_dir undo dst_existing w [] = (w, Inr ())"
| "move_each c ev src_dir dst_dir undo dst_existing w (nm # names) =
     (if nm = [] then move_each c ev src_dir dst_dir undo dst_existing w names
      else
        let resolved = (if nm \<in> dst_existing then unique_name_in_parent c ev w dst_dir nm else nm)
        in if resolved = []
           then move_each c ev src_dir dst_dir undo dst_existing
                  (add_log w (LogSkipMoveConflict (join_path src_dir nm) dst_dir nm)) names
           else
             case (if resolved \<noteq> nm
                   then (case client_rename c (add_log w (LogInfoMoveConflict nm resolved))
                                 (join_path src_dir nm) resolved of
                           (w1, Inl e) \<Rightarrow> (w1, Inl e)
                         | (w1, Inr u) \<Rightarrow>
                             (undo_record undo w1 (RenamePath src_dir nm resolved), Inr u))
                   else (w, Inr ())) of
               (w1, Inl e) \<Rightarrow> (w1, Inl e)
             | (w1, Inr _) \<Rightarrow>
                 (case client_move c (add_log w1 (LogMove [resolved] src_dir dst_dir))
                         src_dir dst_dir [resolved] of
                    (w2, Inl e) \<Rightarrow> (w2, Inl e)
                  | (w2, Inr _) \<Rightarrow>
                      move_each c ev src_dir dst_dir undo (insert resolved dst_existing)
                        (undo_record undo w2 (MoveRec src_dir dst_dir [resolved])) names))"

definition maybe_move ::
  "'fs client \<Rightarrow> env \<Rightarrow> 'fs world \<Rightarrow> ustr \<Rightarrow> ustr \<Rightarrow> ustr list \<Rightarrow> bool \<Rightarrow> bool
     \<Rightarrow> 'fs world \<times> (error + unit)" where
  "maybe_move c ev w src_dir dst_dir names dry_run undo =
     (if names = [] then (w, Inr ())
      else if norm_path src_dir = norm_path dst_dir then (w, Inr ())
      else if dry_run then (add_log w (LogDryMove names src_dir dst_dir), Inr ())
      else if \<not> move_individual ev
        then (case client_move c (add_log w (LogMove names src_dir dst_dir)) src_dir dst_dir names of
                (w1, Inl e) \<Rightarrow> (w1, Inl e)
              | (w1, Inr u) \<Rightarrow> (undo_record undo w1 (MoveRec src_dir dst_dir names), Inr u))
      else move_each c ev src_dir dst_dir undo (existing_names c w dst_dir) w names)"

definition maybe_move_folder_to_dir ::
  "'fs client \<Rightarrow> env \<Rightarrow> 'fs world \<Rightarrow> ustr \<Rightarrow> ustr \<Rightarrow> bool \<Rightarrow> bool
     \<Rightarrow> 'fs world \<times> (error + ustr)" where
  "maybe_move_folder_to_dir c ev w folder_path0 dst_dir0 dry_run undo =
     (let folder_path = norm_path folder_path0;
          dst_dir = norm_path dst_dir0;
          (src_parent, nm) = split_path folder_path
      in if nm = [] then (w, Inr folder_path)
         else if norm_path src_parent = dst_dir then (w, Inr folder_path)
         else
           let final_name = unique_name_in_parent c ev w dst_dir nm
           in case (if final_name \<noteq> nm
                    then (case maybe_rename_path c ev w folder_path final_name dry_run True undo of
                            (w1, Inl e) \<Rightarrow> (w1, Inl e)
                          | (w1, Inr renamed) \<Rightarrow> (w1, Inr (split_path renamed)))
                    else (w, Inr (src_parent, nm))) of
                (w1, Inl e) \<Rightarrow> (w1, Inl e)
              | (w1, Inr (src_parent1, nm1)) \<Rightarrow>
                  (case maybe_move c ev w1 src_parent1 dst_dir [nm1] dry_run undo of
                     (w2, Inl e) \<Rightarrow> (w2, Inl e)
                   | (w2, Inr _) \<Rightarrow> (w2, Inr (join_path dst_dir nm1))))"

subsection \<open>\<open>cleanup_ads_in_dir\<close> and \<open>relocate_subtitles_in_show_root\<close>\<close>

text \<open>
  Both functions begin by calling \<open>client.listdir\<close> inside \<open>try\<close> and return when it raises.
  What they would do with a listing is passed as \<open>body\<close>, so that the statements about them
  hold whatever that code is. \<open>cleanup_ads_in_dir\<close> reads \<open>DELETE_ADS\<close> first.
\<close>

definition cleanup_ads_in_dir ::
  "'fs client \<Rightarrow> env \<Rightarrow> (DirEntry list \<Rightarrow> 'fs world \<Rightarrow> 'fs world) \<Rightarrow> 'fs world \<Rightarrow> ustr \<Rightarrow> bool
     \<Rightarrow> 'fs world" where
  "cleanup_ads_in_dir c ev body w dir_path dry_run =
     (if \<not> bool_env (DELETE_ADS ev) True then w
      else case client_listdir c w dir_path of
             Inl e \<Rightarrow> w
           | Inr entries \<Rightarrow> body entries w)"

definition relocate_subtitles_in_show_root ::
  "'fs client \<Rightarrow> (DirEntry list \<Rightarrow> 'fs world \<Rightarrow> 'fs world) \<Rightarrow> 'fs world \<Rightarrow> ustr \<Rightarrow> bool
     \<Rightarrow> 'fs world" where
  "relocate_subtitles_in_show_root c body w series_path dry_run =
     (case client_listdir c w series_path of
        Inl e \<Rightarrow> w
      | Inr entries \<Rightarrow> body entries w)"

subsection \<open>What a dry run must leave alone\<close>

text \<open>
  \<open>unchanged w w'\<close>: between \<open>w\<close> and \<open>w'\<close> no mutating call was made to the collaborator,
  the remote state is the same and nothing was written to the undo ledger. The run log may
  have grown.
\<close>

definition unchanged :: "'fs world \<Rightarrow> 'fs world \<Rightarrow> bool" where
  "unchanged w w' \<longleftrightarrow> remote w' = remote w \<and> calls w' = calls w \<and> undo_log w' = undo_log w"

section \<open>A remote for the examples\<close>

text \<open>
  A small remote, used only to run the operations on concrete inputs: one listing per
  directory path. \<open>rename\<close> fails when the path does not exist, as the server does
  (``object not found''); the other calls act on the listings they name.
\<close>

type_synonym table = "(ustr \<times> DirEntry list) list"

definition in_dir :: "ustr \<Rightarrow> (DirEntry list \<Rightarrow> DirEntry list) \<Rightarrow> table \<Rightarrow> table" where
  "in_dir d f t = map (\<lambda>(k, es). if k = d then (k, f es) else (k, es)) t"

definition rekey :: "ustr \<Rightarrow> ustr \<Rightarrow> table \<Rightarrow> table" where
  "rekey old new t =
     map (\<lambda>(k, es). if k = old then (new, es)
                     else if startswith k (old @ [cp CHR ''/'']) then (new @ drop (length old) k, es)
                     else (k, es)) t"

definition entries_of :: "table \<Rightarrow> ustr \<Rightarrow> DirEntry list" where
  "entries_of t d = (case map_of t d of None \<Rightarrow> [] | Some es \<Rightarrow> es)"

definition table_exec :: "table \<Rightarrow> fs_call \<Rightarrow> table option" where
  "table_exec t call =
     (case call of
        Mkdir p \<Rightarrow>
          (let (parent, nm) = split_path p
           in Some (in_dir parent (\<lambda>es. es @ [\<lparr>ent_name = nm, is_dir = True\<rparr>]) t @ [(p, [])]))
      | Rename p new \<Rightarrow>
          (let (parent, old) = split_path p
           in if old \<notin> set (map ent_name (entries_of t parent)) then None
              else Some (rekey p (join_path parent new)
                           (in_dir parent (map (\<lambda>e. if ent_name e = old then e\<lparr>ent_name := new\<rparr> else e)) t)))
      | Move src dst names \<Rightarrow>
          Some (fold (\<lambda>n. rekey (join_path src n) (join_path dst n)) names
                  (in_dir dst (\<lambda>es. es @ filter (\<lambda>e. ent_name e \<in> set names) (entries_of t src))
                     (in_dir src (filter (\<lambda>e. ent_name e \<notin> set names)) t)))
      | Remove d names \<Rightarrow> Some (in_dir d (filter (\<lambda>e. ent_name e \<notin> set names)) t))"

definition table_client :: "table client" where
  "table_client = \<lparr>list_dir = map_of, exec = table_exec\<rparr>"

definition default_env :: env where
  "default_env = \<lparr>ON_CONFLICT = None, MOVE_INDIVIDUAL = None, DELETE_ADS = None\<rparr>"

definition start :: "'fs \<Rightarrow> 'fs world" where
  "start fs = \<lparr>remote = fs, calls = [], undo_log = [], log_lines = []\<rparr>"

definition dir_entry :: "string \<Rightarrow> DirEntry" where
  "dir_entry n = \<lparr>ent_name = ustr_of n, is_dir = True\<rparr>"

definition file_entry :: "string \<Rightarrow> DirEntry" where
  "file_entry n = \<lparr>ent_name = ustr_of n, is_dir = False\<rparr>"

section \<open>String similarity (\<open>levenshtein_ratio\<close>)\<close>







section \<open>Rollback (\<open>apply_undo\<close>)\<close>

text \<open>
  A line of the undo file as \<open>apply_undo\<close> reads it: blank, not JSON, or an object. Of an
  object only \<open>op\<close> and the fields of that operation are read; a field that is missing reads
  as the empty string (or the empty list), which the guards \<open>if parent and old and new\<close> and
  \<open>if src_dir and dst_dir and names\<close> treat alike.
\<close>

datatype undo_line =
    UndoBlank
  | UndoUnparsable
  | UndoRename ustr ustr ustr          \<comment> \<open>\<open>op = rename_path\<close>: parent, old, new\<close>
  | UndoMove ustr ustr "ustr list"     \<comment> \<open>\<open>op = move\<close>: src_dir, dst_dir, names\<close>
  | UndoOther                          \<comment> \<open>any other \<open>op\<close>\<close>

text \<open>What \<open>UndoLogger.record\<close> writes for a record of the ledger.\<close>

fun undo_line_of :: "OperationRecord \<Rightarrow> undo_line" where
  "undo_line_of (RenamePath parent old new) = UndoRename parent old new"
| "undo_line_of (MoveRec src_dir dst_dir names) = UndoMove src_dir dst_dir names"

text \<open>
  The loop \<open>for rec in reversed(recs)\<close>, given the records already reversed. A call that
  raises is reported and the loop goes on (\<open>except Exception\<close>), so the error is dropped.
  The messages go to the log hub or to the standard output, not to the run log.
\<close>

fun undo_replay :: "'fs client \<Rightarrow> 'fs world \<Rightarrow> undo_line list \<Rightarrow> 'fs world" where
  "undo_replay c w [] = w"
| "undo_replay c w (UndoRename parent old new # recs) =
     (if parent \<noteq> [] \<and> old \<noteq> [] \<and> new \<noteq> []
      then undo_replay c (fst (client_rename c w (join_path parent new) old)) recs
      else undo_replay c w recs)"
| "undo_replay c w (UndoMove src_dir dst_dir names # recs) =
     (if src_dir \<noteq> [] \<and> dst_dir \<noteq> [] \<and> names \<noteq> []
      then undo_replay c (fst (client_move c w dst_dir src_dir names)) recs
      else undo_replay c w recs)"
| "undo_replay c w (_ # recs) = undo_replay c w recs"

text \<open>
  \<open>Path(undo_file).exists()\<close>. The module imports neither \<open>pathlib\<close> nor any other binding
  of the name \<open>Path\<close>, so evaluating the name raises \<open>NameError\<close> whatever the argument is.
\<close>

definition Path_exists :: "(ustr \<Rightarrow> bool) \<Rightarrow> ustr \<Rightarrow> error + bool" where
  "Path_exists on_disk p = Inl NameError"

text \<open>
  \<open>apply_undo\<close>. \<open>on_disk\<close> tells which files exist and \<open>content\<close> is the undo file, line by
  line.
\<close>

definition apply_undo ::
  "'fs client \<Rightarrow> 'fs world \<Rightarrow> ustr \<Rightarrow> (ustr \<Rightarrow> bool) \<Rightarrow> undo_line list \<Rightarrow> bool
     \<Rightarrow> 'fs world \<times> (error + unit)" where
  "apply_undo c w undo_file0 on_disk content yes =
     (let undo_file = strip undo_file0
      in if undo_file = [] then (w, Inl ValueError)
         else case Path_exists on_disk undo_file of
                Inl e \<Rightarrow> (w, Inl e)
              | Inr found \<Rightarrow>
                  if \<not> found then (w, Inl FileNotFoundError)
                  else if \<not> yes then (w, Inl RuntimeError)
                  else
                    let recs = filter (\<lambda>l. l \<noteq> UndoBlank \<and> l \<noteq> UndoUnparsable) content
                    in (undo_replay c w (rev recs), Inr ()))"

section \<open>Resume (\<open>load_state\<close> and the loop of \<open>main\<close>)\<close>

text \<open>
  A line of the state file as \<open>load_state\<close> reads it: blank, not a JSON object, or an object
  with its \<open>status\<close> and its \<open>series_path\<close>, each a string or \<open>None\<close> when the key is missing
  or holds something else than a string (the comparison with \<open>'done'\<close> is then false, and
  \<open>norm_path\<close> of a value that is not a string raises inside the \<open>try\<close>).
\<close>

datatype state_line =
    StateBlank
  | StateUnparsable
  | StateObj "ustr option" "ustr option"

fun load_state_lines :: "state_line list \<Rightarrow> ustr list" where
  "load_state_lines [] = []"
| "load_state_lines (StateObj (Some status) (Some series_path) # ls) =
     (if status = ustr_of ''done'' \<and> series_path \<noteq> []
      then norm_path series_path # load_state_lines ls
      else load_state_lines ls)"
| "load_state_lines (_ # ls) = load_state_lines ls"

text \<open>
  \<open>load_state\<close>: the set \<open>done\<close>, kept as a list. \<open>files path\<close> is the content of the file
  at \<open>path\<close>, \<open>None\<close> when there is no such file or it cannot be opened.
\<close>

definition load_state :: "(ustr \<Rightarrow> state_line list option) \<Rightarrow> ustr \<Rightarrow> ustr list" where
  "load_state files path =
     (if path = [] then []
      else case files path of
             None \<Rightarrow> []
           | Some ls \<Rightarrow> load_state_lines ls)"

text \<open>
  What the loop of \<open>main\<close> does with one series: it stops, skips it, or hands it to
  \<open>process_series_folder\<close>, which returns or raises.
\<close>

datatype outcome = Stop | Skip ustr | Done ustr | Failed ustr

text \<open>
  The loop over \<open>series_paths\<close>. \<open>stop_requested k\<close> is the answer of the log hub at the
  \<open>k\<close>-th poll and \<open>succeeds p\<close> tells whether \<open>process_series_folder\<close> returns on \<open>p\<close>; what
  else that function does is not looked at here. The result is what happened, in order.
\<close>

fun main_loop ::
  "(nat \<Rightarrow> bool) \<Rightarrow> (ustr \<Rightarrow> bool) \<Rightarrow> ustr list \<Rightarrow> nat \<Rightarrow> ustr list \<Rightarrow> outcome list" where
  "main_loop stop_requested succeeds done_set k [] = []"
| "main_loop stop_requested succeeds done_set k (series_path # rest) =
     (if stop_requested k then [Stop]
      else if norm_path series_path \<in> set done_set
        then Skip series_path # main_loop stop_requested succeeds done_set (k + 1) rest
      else (if succeeds series_path then Done series_path else Failed series_path)
             # main_loop stop_requested succeeds done_set (k + 1) rest)"

text \<open>\<open>append_state\<close> for the outcomes of a run: one line for each series processed.\<close>

fun state_lines_of :: "outcome list \<Rightarrow> state_line list" where
  "state_lines_of [] = []"
| "state_lines_of (Done p # os) =
     StateObj (Some (ustr_of ''done'')) (Some (norm_path p)) # state_lines_of os"
| "state_lines_of (Failed p # os) =
     StateObj (Some (ustr_of ''error'')) (Some (norm_path p)) # state_lines_of os"
| "state_lines_of (_ # os) = state_lines_of os"

text \<open>
  The part of \<open>main\<close> from the choice of the state file to the end of the loop:
  \<open>resume\<close> is \<open>args.resume\<close>, \<open>state_file0\<close> is \<open>args.state_file\<close> and \<open>default_state_file\<close>
  is \<open>state.jsonl\<close> in the log directory. The result is what happened and the state file
  afterwards.
\<close>

definition main_run ::
  "bool \<Rightarrow> ustr \<Rightarrow> ustr \<Rightarrow> (ustr \<Rightarrow> state_line list option) \<Rightarrow> (nat \<Rightarrow> bool) \<Rightarrow> (ustr \<Rightarrow> bool)
     \<Rightarrow> ustr list \<Rightarrow> outcome list \<times> (ustr \<Rightarrow> state_line list option)" where
  "main_run resume state_file0 default_state_file files stop_requested succeeds series_paths =
     (let state_file = strip state_file0;
          state_file = (if resume \<and> state_file = [] then default_state_file else state_file);
          done_set = (if resume \<and> state_file \<noteq> [] then load_state files state_file else []);
          outcomes = main_loop stop_requested succeeds done_set 0 series_paths;
          appended = state_lines_of outcomes
      in (outcomes,
          if state_file = [] \<or> appended = [] then files
          else files(state_file := Some ((case files state_file of None \<Rightarrow> [] | Some ls \<Rightarrow> ls)
                                          @ appended))))"

definition processed :: "outcome list \<Rightarrow> ustr list" where
  "processed os = concat (map (\<lambda>x. case x of Done p \<Rightarrow> [p] | Failed p \<Rightarrow> [p] | _ \<Rightarrow> []) os)"
section \<open>Properties of the path algebra\<close>

lemma startswith_Cons: "startswith (c # s) [d] = (c = d)"
  by (simp add: startswith_def)

lemma startswith_Nil: "startswith [] [d] = False"
  by (simp add: startswith_def)

lemma endswith_single: "endswith s [d] = (s \<noteq> [] \<and> last s = d)"
proof (cases s rule: rev_cases)
  case Nil
  then show ?thesis by (simp add: endswith_def)
next
  case (snoc ys y)
  then show ?thesis by (auto simp: endswith_def)
qed

lemma norm_path_nonempty: "norm_path p \<noteq> []"
proof (cases p)
  case Nil
  then show ?thesis by (simp add: norm_path_def)
next
  case (Cons c cs)
  then show ?thesis
    by (auto simp: norm_path_def Let_def replace_char_def startswith_Cons endswith_single)
qed

lemma norm_path_hd: "hd (norm_path p) = cp CHR ''/''"
proof (cases p)
  case Nil
  then show ?thesis by (simp add: norm_path_def)
next
  case (Cons c cs)
  then show ?thesis
    by (cases cs rule: rev_cases)
       (auto simp: norm_path_def Let_def replace_char_def startswith_Cons endswith_single
                   butlast_append hd_append)
qed

lemma norm_path_no_backslash: "cp CHR 0x5C \<notin> set (norm_path p)"
proof (cases p)
  case Nil
  then show ?thesis by (simp add: norm_path_def)
next
  case (Cons c cs)
  have "cp CHR 0x5C \<notin> set (replace_char (cp CHR 0x5C) (cp CHR ''/'') p)"
    by (auto simp: replace_char_def)
  then show ?thesis using Cons
    by (auto simp: norm_path_def Let_def dest: in_set_butlastD)
qed

lemma replace_char_id: "a \<notin> set s \<Longrightarrow> replace_char a b s = s"
  by (induction s) (auto simp: replace_char_def)

lemma norm_path_fixed:
  assumes "q \<noteq> []" "hd q = cp CHR ''/''" "cp CHR 0x5C \<notin> set q" "last q \<noteq> cp CHR ''/''"
  shows "norm_path q = q"
proof -
  from assms(1,2) obtain cs where q: "q = cp CHR ''/'' # cs" by (cases q) auto
  have r: "replace_char (cp CHR 0x5C) (cp CHR ''/'') q = q"
    using assms(3) by (rule replace_char_id)
  show ?thesis
    using assms(1,4) r q by (simp add: norm_path_def Let_def startswith_Cons endswith_single)
qed

lemma rpartition_slash_none: "cp CHR ''/'' \<notin> set n \<Longrightarrow> rpartition_slash n = None"
  by (induction n) auto

lemma rpartition_slash_append:
  "cp CHR ''/'' \<notin> set n \<Longrightarrow> rpartition_slash (d @ cp CHR ''/'' # n) = Some (d, n)"
  by (induction d) (auto simp: rpartition_slash_none)

lemma endswith_iff: "endswith s suf \<longleftrightarrow> (\<exists>r. s = r @ suf)"
proof
  assume "endswith s suf"
  then have "s = take (length s - length suf) s @ suf"
    by (metis append_take_drop_id endswith_def)
  then show "\<exists>r. s = r @ suf" ..
next
  assume "\<exists>r. s = r @ suf"
  then show "endswith s suf" by (auto simp: endswith_def)
qed

lemma norm_path_last:
  assumes "\<not> endswith (replace_char (cp CHR 0x5C) (cp CHR ''/'') p) [cp CHR ''/'', cp CHR ''/'']"
  shows "norm_path p = [cp CHR ''/''] \<or> last (norm_path p) \<noteq> cp CHR ''/''"
proof (cases p)
  case Nil
  then show ?thesis by (simp add: norm_path_def)
next
  case (Cons c cs)
  define p1 where "p1 = replace_char (cp CHR 0x5C) (cp CHR ''/'') p"
  define p2 where "p2 = (if \<not> startswith p1 [cp CHR ''/''] then cp CHR ''/'' # p1 else p1)"
  have np: "norm_path p = (if p2 \<noteq> [cp CHR ''/''] \<and> endswith p2 [cp CHR ''/''] then butlast p2 else p2)"
    unfolding norm_path_def Let_def p2_def p1_def using Cons by simp
  have p1ne: "p1 \<noteq> []" using Cons by (simp add: p1_def replace_char_def)
  have no2: "\<And>r. p1 \<noteq> r @ [cp CHR ''/'', cp CHR ''/'']" using assms p1_def by (auto simp: endswith_iff)
  show ?thesis
  proof (cases "p2 \<noteq> [cp CHR ''/''] \<and> endswith p2 [cp CHR ''/'']")
    case False
    then show ?thesis using np p1ne by (auto simp: endswith_single p2_def startswith_Nil)
  next
    case True
    then obtain r where r: "p2 = r @ [cp CHR ''/'']" "r \<noteq> []"
      by (cases p2 rule: rev_cases) (auto simp: endswith_single)
    have "last r \<noteq> cp CHR ''/''"
    proof
      assume l: "last r = cp CHR ''/''"
      then obtain r' where r': "r = r' @ [cp CHR ''/'']" using r(2)
        by (cases r rule: rev_cases) auto
      show False
      proof (cases "startswith p1 [cp CHR ''/'']")
        case True
        then show ?thesis using r r' no2[of r'] by (simp add: p2_def)
      next
        case False
        then have "cp CHR ''/'' # p1 = r' @ [cp CHR ''/'', cp CHR ''/'']" using r r' by (simp add: p2_def)
        then show ?thesis using no2 False p1ne
          by (cases r') (auto simp: startswith_Cons)
      qed
    qed
    then show ?thesis using np True r by simp
  qed
qed

text \<open>
  Claim C10 (as amended). For every input string, \<open>norm_path\<close> returns a string that
  starts with a slash. If the input, after its backslashes are turned into slashes, does not
  end in two slashes, the result has no trailing slash unless it is exactly the root. For
  every directory path \<open>d\<close> and non-empty name \<open>n\<close> that contains neither a slash nor a
  backslash, \<open>split_path (join_path d n) = (norm_path d, n)\<close>.
\<close>

theorem path_algebra:
  "norm_path p \<noteq> [] \<and> hd (norm_path p) = cp CHR ''/'' \<and>
   (\<not> endswith (replace_char (cp CHR 0x5C) (cp CHR ''/'') p) [cp CHR ''/'', cp CHR ''/''] \<longrightarrow>
      norm_path p = [cp CHR ''/''] \<or> last (norm_path p) \<noteq> cp CHR ''/'') \<and>
   (n \<noteq> [] \<and> cp CHR ''/'' \<notin> set n \<and> cp CHR 0x5C \<notin> set n \<longrightarrow>
      split_path (join_path d n) = (norm_path d, n))"
proof (intro conjI impI)
  show "norm_path p \<noteq> []" by (rule norm_path_nonempty)
  show "hd (norm_path p) = cp CHR ''/''" by (rule norm_path_hd)
next
  assume "\<not> endswith (replace_char (cp CHR 0x5C) (cp CHR ''/'') p) [cp CHR ''/'', cp CHR ''/'']"
  then show "norm_path p = [cp CHR ''/''] \<or> last (norm_path p) \<noteq> cp CHR ''/''"
    using norm_path_last by blast
next
  assume n: "n \<noteq> [] \<and> cp CHR ''/'' \<notin> set n \<and> cp CHR 0x5C \<notin> set n"
  have ln: "last n \<noteq> cp CHR ''/''" using n by (metis last_in_set)
  define dn where "dn = norm_path d"
  have dne: "dn \<noteq> []" and dhd: "hd dn = cp CHR ''/''" and dbs: "cp CHR 0x5C \<notin> set dn"
    by (simp_all add: dn_def norm_path_nonempty norm_path_hd norm_path_no_backslash del: of_char_Char)
  show "split_path (join_path d n) = (norm_path d, n)"
  proof (cases "dn = [cp CHR ''/'']")
    case True
    have j: "join_path d n = cp CHR ''/'' # n" using True by (simp add: join_path_def dn_def)
    have f: "norm_path (cp CHR ''/'' # n) = cp CHR ''/'' # n"
      using n ln by (intro norm_path_fixed) auto
    have "rpartition_slash ([] @ cp CHR ''/'' # n) = Some ([], n)"
      using n by (intro rpartition_slash_append) simp
    then show ?thesis using j f n True by (simp add: split_path_def Let_def dn_def)
  next
    case False
    have j: "join_path d n = dn @ cp CHR ''/'' # n" using False by (simp add: join_path_def dn_def)
    have f: "norm_path (dn @ cp CHR ''/'' # n) = dn @ cp CHR ''/'' # n"
      using n ln dne dhd dbs by (intro norm_path_fixed) auto
    have "rpartition_slash (dn @ cp CHR ''/'' # n) = Some (dn, n)"
      using n by (intro rpartition_slash_append) simp
    moreover have "dn @ cp CHR ''/'' # n \<noteq> [cp CHR ''/'']" using dne by (cases dn) auto
    ultimately show ?thesis using j f n dne by (simp add: split_path_def Let_def dn_def[symmetric])
  qed
qed

theorem path_algebra_witness:
  "\<not> endswith (replace_char (cp CHR 0x5C) (cp CHR ''/'') (ustr_of ''tv/show/'')) [cp CHR ''/'', cp CHR ''/''] \<and>
   ustr_of ''S01'' \<noteq> [] \<and> cp CHR ''/'' \<notin> set (ustr_of ''S01'') \<and> cp CHR 0x5C \<notin> set (ustr_of ''S01'') \<and>
   last (norm_path (ustr_of ''tv/show/'')) \<noteq> cp CHR ''/'' \<and>
   split_path (join_path (ustr_of ''tv/show/'') (ustr_of ''S01''))
     = (norm_path (ustr_of ''tv/show/''), ustr_of ''S01'')"
proof -
  have h1: "\<not> endswith (replace_char (cp CHR 0x5C) (cp CHR ''/'') (ustr_of ''tv/show/'')) [cp CHR ''/'', cp CHR ''/'']"
    by code_simp
  have h2: "ustr_of ''S01'' \<noteq> [] \<and> cp CHR ''/'' \<notin> set (ustr_of ''S01'') \<and> cp CHR 0x5C \<notin> set (ustr_of ''S01'')"
    by code_simp
  have h3: "norm_path (ustr_of ''tv/show/'') \<noteq> [cp CHR ''/'']"
    by code_simp
  from path_algebra [of "ustr_of ''tv/show/''" "ustr_of ''S01''" "ustr_of ''tv/show/''"] h1 h2 h3
  show ?thesis by blast
qed

text \<open>
  The claim as first stated fails: \<open>norm_path\<close> removes one trailing slash only, so
  \<open>a//\<close> becomes \<open>/a/\<close>; and a backslash inside a name is turned into a separator,
  so joining and splitting again does not give the name back.
\<close>

theorem path_algebra_counterexample:
  "norm_path (ustr_of ''a//'') = ustr_of ''/a/'' \<and>
   split_path (join_path (ustr_of ''/'') [cp CHR ''a'', cp CHR 0x5C, cp CHR ''b''])
     = (ustr_of ''/a'', ustr_of ''b'')"
  by code_simp

section \<open>The matcher finds what the patterns denote\<close>

lemma take_le_takeWhile:
  "n \<le> length r \<Longrightarrow> list_all P (take n r) \<Longrightarrow> n \<le> length (takeWhile P r)"
proof (induction r arbitrary: n)
  case Nil
  then show ?case by simp
next
  case (Cons c r)
  then show ?case by (cases n) auto
qed

lemma takeWhile_take_all:
  "k \<le> length (takeWhile P r) \<Longrightarrow> list_all P (take k r)"
proof (induction r arbitrary: k)
  case Nil
  then show ?case by simp
next
  case (Cons c r)
  then show ?case by (cases k) (auto split: if_splits)
qed

lemma matches_denotes:
  "(n, g) \<in> set (matches x b r) \<longleftrightarrow> n \<le> length r \<and> denotes x b (take n r) (drop n r) g"
proof (induction x arbitrary: n g b r)
  case (Atom P)
  show ?case
  proof (cases r)
    case Nil
    then show ?thesis by simp
  next
    case (Cons c r')
    then show ?thesis by (cases n) auto
  qed
next
  case Eps
  show ?case by auto
next
  case (Seq x y)
  show ?case
  proof
    assume "(n, g) \<in> set (matches (Seq x y) b r)"
    then obtain n1 g1 n2 g2 where
      a: "(n1, g1) \<in> set (matches x b r)"
      and c: "(n2, g2) \<in> set (matches y (rev (take n1 r) @ b) (drop n1 r))"
      and e: "n = n1 + n2" "g = g1 @ g2"
      by auto
    from a Seq.IH(1) have a': "n1 \<le> length r" "denotes x b (take n1 r) (drop n1 r) g1" by auto
    from c Seq.IH(2) have c': "n2 \<le> length (drop n1 r)"
      "denotes y (rev (take n1 r) @ b) (take n2 (drop n1 r)) (drop n2 (drop n1 r)) g2" by auto
    have t: "take n r = take n1 r @ take n2 (drop n1 r)" using e by (simp add: take_add)
    have d: "drop n r = drop n2 (drop n1 r)" using e by (simp add: add.commute)
    have "take n2 (drop n1 r) @ drop n r = drop n1 r"
      unfolding d by (rule append_take_drop_id)
    then have "denotes x b (take n1 r) (take n2 (drop n1 r) @ drop n r) g1"
      using a'(2) by simp
    then have "denotes (Seq x y) b (take n r) (drop n r) g"
      using t d c' e by auto
    moreover have "n \<le> length r" using a' c' e by simp
    ultimately show "n \<le> length r \<and> denotes (Seq x y) b (take n r) (drop n r) g" by simp
  next
    assume h: "n \<le> length r \<and> denotes (Seq x y) b (take n r) (drop n r) g"
    then obtain w1 w2 g1 g2 where
      w: "take n r = w1 @ w2" "g = g1 @ g2"
      and dx: "denotes x b w1 (w2 @ drop n r) g1"
      and dy: "denotes y (rev w1 @ b) w2 (drop n r) g2" by auto
    define n1 where "n1 = length w1"
    define n2 where "n2 = length w2"
    have rr: "r = w1 @ w2 @ drop n r" using w(1) by (metis append_assoc append_take_drop_id)
    have nn: "n = n1 + n2" using w(1) h by (metis length_append length_take min.absorb2 n1_def n2_def)
    have t1: "take n1 r = w1" using rr n1_def by (metis append_eq_conv_conj)
    have d1: "drop n1 r = w2 @ drop n r" using rr n1_def by (metis append_eq_conv_conj)
    have le1: "n1 \<le> length r" using nn h by simp
    have "(n1, g1) \<in> set (matches x b r)"
      using Seq.IH(1)[of n1 g1 b r] t1 d1 dx le1 by simp
    moreover have "(n2, g2) \<in> set (matches y (rev (take n1 r) @ b) (drop n1 r))"
      using Seq.IH(2)[of n2 g2 "rev (take n1 r) @ b" "drop n1 r"] t1 d1 dy n2_def by simp
    ultimately show "(n, g) \<in> set (matches (Seq x y) b r)"
      using nn w(2) by force
  qed
next
  case (Alt x y)
  then show ?case by auto
next
  case (Star P)
  show ?case
  proof
    assume "(n, g) \<in> set (matches (Star P) b r)"
    then have k: "n \<le> length (takeWhile P r)" "g = []" by auto
    then show "n \<le> length r \<and> denotes (Star P) b (take n r) (drop n r) g"
      using takeWhile_take_all[of n P r] length_takeWhile_le[of P r] by auto
  next
    assume "n \<le> length r \<and> denotes (Star P) b (take n r) (drop n r) g"
    then show "(n, g) \<in> set (matches (Star P) b r)"
      using take_le_takeWhile[of n r P] by auto
  qed
next
  case (Grp x)
  then show ?case by auto
next
  case Bol
  show ?case by auto
next
  case Eol
  show ?case by auto
next
  case Wb
  show ?case by auto
next
  case (Ahead x)
  have ex: "(matches x b r \<noteq> []) \<longleftrightarrow> (\<exists>u v g'. r = u @ v \<and> denotes x b u v g')"
  proof
    assume "matches x b r \<noteq> []"
    then obtain m g' where "(m, g') \<in> set (matches x b r)" by (cases "matches x b r") auto
    then have "m \<le> length r \<and> denotes x b (take m r) (drop m r) g'" using Ahead.IH by blast
    then show "\<exists>u v g'. r = u @ v \<and> denotes x b u v g'"
      by (metis append_take_drop_id)
  next
    assume "\<exists>u v g'. r = u @ v \<and> denotes x b u v g'"
    then obtain u v g' where uv: "r = u @ v" "denotes x b u v g'" by blast
    then have "(length u, g') \<in> set (matches x b r)" using Ahead.IH[of "length u" g' b r] by simp
    then show "matches x b r \<noteq> []" by auto
  qed
  show ?case
  proof (cases "n = 0")
    case True
    then show ?thesis using ex by simp
  next
    case False
    then show ?thesis by auto
  qed
next
  case (NotAhead x)
  have ex: "(matches x b r \<noteq> []) \<longleftrightarrow> (\<exists>u v g'. r = u @ v \<and> denotes x b u v g')"
  proof
    assume "matches x b r \<noteq> []"
    then obtain m g' where "(m, g') \<in> set (matches x b r)" by (cases "matches x b r") auto
    then have "m \<le> length r \<and> denotes x b (take m r) (drop m r) g'" using NotAhead.IH by blast
    then show "\<exists>u v g'. r = u @ v \<and> denotes x b u v g'"
      by (metis append_take_drop_id)
  next
    assume "\<exists>u v g'. r = u @ v \<and> denotes x b u v g'"
    then obtain u v g' where uv: "r = u @ v" "denotes x b u v g'" by blast
    then have "(length u, g') \<in> set (matches x b r)" using NotAhead.IH[of "length u" g' b r] by simp
    then show "matches x b r \<noteq> []" by auto
  qed
  show ?case
  proof (cases "n = 0")
    case True
    then show ?thesis using ex by simp blast
  next
    case False
    then show ?thesis by auto
  qed
next
  case (NotBehind P)
  show ?case by (cases b) auto
qed

lemma search_from_sound:
  "search_from x b r = Some (i, j, g) \<Longrightarrow>
     \<exists>pre w post. r = pre @ w @ post \<and> i = length b + length pre \<and> j = i + length w \<and>
        denotes x (rev pre @ b) w post g \<and>
        (\<forall>pre' w' post' g'. r = pre' @ w' @ post' \<and> denotes x (rev pre' @ b) w' post' g'
            \<longrightarrow> length pre \<le> length pre')"
proof (induction r arbitrary: b i j g)
  case Nil
  then obtain n where m: "(n, g) \<in> set (matches x b [])" and ij: "i = length b" "j = length b + n"
    by (cases "matches x b []") auto
  from m have "n \<le> length ([]::ustr) \<and> denotes x b (take n []) (drop n []) g"
    using matches_denotes by blast
  then have "n = 0" "denotes x b [] [] g" by auto
  then show ?case using ij by (intro exI[of _ "[]"]) auto
next
  case (Cons c r)
  show ?case
  proof (cases "matches x b (c # r)")
    case Nil
    with Cons.prems have "search_from x (c # b) r = Some (i, j, g)" by simp
    from Cons.IH[OF this] obtain pre w post where
      p: "r = pre @ w @ post" "i = length (c # b) + length pre" "j = i + length w"
         "denotes x (rev pre @ c # b) w post g"
      and lm: "\<forall>pre' w' post' g'. r = pre' @ w' @ post' \<and> denotes x (rev pre' @ c # b) w' post' g'
            \<longrightarrow> length pre \<le> length pre'" by blast
    have left: "\<forall>pre' w' post' g'. c # r = pre' @ w' @ post' \<and> denotes x (rev pre' @ b) w' post' g'
            \<longrightarrow> length (c # pre) \<le> length pre'"
    proof (intro allI impI)
      fix pre' w' post' g'
      assume h: "c # r = pre' @ w' @ post' \<and> denotes x (rev pre' @ b) w' post' g'"
      show "length (c # pre) \<le> length pre'"
      proof (cases pre')
        case Nil
        with h have "(length w', g') \<in> set (matches x b (c # r))"
          using matches_denotes[of "length w'" g' x b "c # r"] by simp
        then show ?thesis using \<open>matches x b (c # r) = []\<close> by simp
      next
        case (Cons c' p')
        with h have "r = p' @ w' @ post'" "denotes x (rev p' @ c # b) w' post' g'" by auto
        then have "length pre \<le> length p'" using lm by blast
        then show ?thesis using Cons by simp
      qed
    qed
    show ?thesis
      using p left by (intro exI[of _ "c # pre"] exI[of _ w] exI[of _ post]) auto
  next
    case (Cons a ms)
    obtain n g0 where a: "a = (n, g0)" by (cases a)
    with Cons Cons.prems have ij: "i = length b" "j = length b + n" "g0 = g" by auto
    have "(n, g) \<in> set (matches x b (c # r))" using Cons a ij by simp
    then have d: "n \<le> length (c # r)" "denotes x b (take n (c # r)) (drop n (c # r)) g"
      using matches_denotes by blast+
    show ?thesis
      using d ij
      by (intro exI[of _ "[]"] exI[of _ "take n (c # r)"] exI[of _ "drop n (c # r)"]) auto
  qed
qed

lemma search_from_None:
  "search_from x b r = None \<Longrightarrow> r = pre @ w @ post \<Longrightarrow> \<not> denotes x (rev pre @ b) w post g"
proof (induction r arbitrary: b pre)
  case Nil
  then have "matches x b [] = []" by (cases "matches x b []") auto
  moreover from Nil have "pre = []" "w = []" "post = []" by auto
  ultimately show ?case using matches_denotes[of 0 g x b "[]"] by auto
next
  case (Cons c r)
  have m: "matches x b (c # r) = []"
    using Cons.prems(1) by (cases "matches x b (c # r)") auto
  then have s: "search_from x (c # b) r = None"
    using Cons.prems(1) by simp
  show ?case
  proof (cases pre)
    case Nil
    show ?thesis
    proof
      assume "denotes x (rev pre @ b) w post g"
      then have "(length w, g) \<in> set (matches x b (c # r))"
        using matches_denotes[of "length w" g x b "c # r"] Nil Cons.prems(2) by simp
      then show False using m by simp
    qed
  next
    case (Cons c' p')
    then have "r = p' @ w @ post" "c' = c" using Cons.prems(2) by auto
    then show ?thesis using Cons.IH[OF s, of p'] Cons by simp
  qed
qed

lemma re_search_iff:
  "re_search x s \<noteq> None \<longleftrightarrow> (\<exists>pre w post g. s = pre @ w @ post \<and> denotes x (rev pre) w post g)"
proof
  assume "re_search x s \<noteq> None"
  then obtain i j g where "search_from x [] s = Some (i, j, g)"
    by (auto simp: re_search_def)
  from search_from_sound[OF this] show "\<exists>pre w post g. s = pre @ w @ post \<and> denotes x (rev pre) w post g"
    by auto
next
  assume "\<exists>pre w post g. s = pre @ w @ post \<and> denotes x (rev pre) w post g"
  then obtain pre w post g where h: "s = pre @ w @ post" "denotes x (rev pre) w post g" by blast
  show "re_search x s \<noteq> None"
  proof
    assume "re_search x s = None"
    then have "search_from x [] s = None" by (simp add: re_search_def)
    from search_from_None[OF this h(1), of g] h(2) show False by simp
  qed
qed









section \<open>Properties of the name parser\<close>





















section \<open>Conflict resolution and dry runs\<close>

lemma find_least:
  "List.find P [a..<b] = Some i \<Longrightarrow> a \<le> i \<and> i < b \<and> P i \<and> (\<forall>k. a \<le> k \<and> k < i \<longrightarrow> \<not> P k)"
proof -
  assume f: "List.find P [a..<b] = Some i"
  then obtain ia where ia: "ia < b - a" "P (a + ia)" "i = a + ia" "\<forall>j<ia. \<not> P (a + j)"
    by (auto simp: find_Some_iff)
  have "\<not> P k" if "a \<le> k" "k < i" for k
  proof -
    from that ia(3) have "k - a < ia" "k = a + (k - a)" by auto
    with ia(4) show ?thesis by metis
  qed
  with ia show ?thesis by auto
qed

lemma find_none_upt:
  "List.find P [a..<b] = None \<Longrightarrow> \<forall>k. a \<le> k \<and> k < b \<longrightarrow> \<not> P k"
  by (auto simp: find_None_iff)

text \<open>
  Claim C4 (as amended). \<open>unique_name_in_parent\<close> works on the desired name after
  \<open>safe_filename\<close>. When no entry of the listing has that name, it is returned. Otherwise,
  under the policy \<open>skip\<close> the result is the empty string; under any other policy it is the
  name with \<open>" (n)"\<close> put before its extension, for the least \<open>n\<close> from 1 to 199 such that no
  entry has that name, and the empty string when all 199 are taken. A result that is not empty
  is never the name of an entry of the listing.
\<close>

theorem unique_name_conflict_safety:
  "let d = safe_filename desired;
       ex = existing_names c w parent;
       r = unique_name_in_parent c ev w parent desired
   in (d \<notin> ex \<longrightarrow> r = d)
       \<and> (d \<in> ex \<and> conflict_mode ev = ustr_of ''skip'' \<longrightarrow> r = [])
       \<and> (d \<in> ex \<and> conflict_mode ev \<noteq> ustr_of ''skip'' \<longrightarrow>
            (\<exists>n. 1 \<le> n \<and> n < 200 \<and> r = suffixed d n \<and> suffixed d n \<notin> ex
                 \<and> (\<forall>k. 1 \<le> k \<and> k < n \<longrightarrow> suffixed d k \<in> ex))
            \<or> (r = [] \<and> (\<forall>k. 1 \<le> k \<and> k < 200 \<longrightarrow> suffixed d k \<in> ex)))
       \<and> (r \<noteq> [] \<longrightarrow> r \<notin> ex)"
proof -
  define d where "d = safe_filename desired"
  define ex where "ex = existing_names c w parent"
  define r where "r = unique_name_in_parent c ev w parent desired"
  have r: "r = (if d \<notin> ex then d
                else if conflict_mode ev = ustr_of ''skip'' then []
                else case List.find (\<lambda>i. suffixed d i \<notin> ex) [1..<200] of
                       Some i \<Rightarrow> suffixed d i | None \<Rightarrow> [])"
    unfolding r_def d_def ex_def unique_name_in_parent_def Let_def by simp
  have "(d \<notin> ex \<longrightarrow> r = d)
       \<and> (d \<in> ex \<and> conflict_mode ev = ustr_of ''skip'' \<longrightarrow> r = [])
       \<and> (d \<in> ex \<and> conflict_mode ev \<noteq> ustr_of ''skip'' \<longrightarrow>
            (\<exists>n. 1 \<le> n \<and> n < 200 \<and> r = suffixed d n \<and> suffixed d n \<notin> ex
                 \<and> (\<forall>k. 1 \<le> k \<and> k < n \<longrightarrow> suffixed d k \<in> ex))
            \<or> (r = [] \<and> (\<forall>k. 1 \<le> k \<and> k < 200 \<longrightarrow> suffixed d k \<in> ex)))
       \<and> (r \<noteq> [] \<longrightarrow> r \<notin> ex)" (is ?goal)
  proof (cases "List.find (\<lambda>i. suffixed d i \<notin> ex) [1..<200]")
    case None
    from find_none_upt[OF None] have "\<forall>k. 1 \<le> k \<and> k < 200 \<longrightarrow> suffixed d k \<in> ex" by simp
    with None r show ?goal by auto
  next
    case (Some i)
    from find_least[OF Some] have i: "1 \<le> i" "i < 200" "suffixed d i \<notin> ex"
      "\<forall>k. 1 \<le> k \<and> k < i \<longrightarrow> suffixed d k \<in> ex" by auto
    show ?goal
    proof (cases "d \<in> ex")
      case False
      with r show ?goal by simp
    next
      case True
      show ?goal
      proof (cases "conflict_mode ev = ustr_of ''skip''")
        case True
        with \<open>d \<in> ex\<close> r show ?goal by simp
      next
        case False
        with \<open>d \<in> ex\<close> r Some have "r = suffixed d i" by simp
        with i False \<open>d \<in> ex\<close> show ?goal by blast
      qed
    qed
  qed
  thus ?thesis unfolding Let_def d_def ex_def r_def .
qed

text \<open>An instance: \<open>a.mkv\<close> beside \<open>a.mkv\<close> and \<open>a (1).mkv\<close> becomes \<open>a (2).mkv\<close>.\<close>

theorem unique_name_conflict_safety_witness:
  "unique_name_in_parent table_client default_env
     (start [(ustr_of ''/d'', [file_entry ''a.mkv'', file_entry ''a (1).mkv''])])
     (ustr_of ''/d'') (ustr_of ''a.mkv'') = ustr_of ''a (2).mkv''
   \<and> ustr_of ''a (2).mkv'' \<notin>
       existing_names table_client
         (start [(ustr_of ''/d'', [file_entry ''a.mkv'', file_entry ''a (1).mkv''])]) (ustr_of ''/d'')"
proof -
  have h1: "unique_name_in_parent table_client default_env
     (start [(ustr_of ''/d'', [file_entry ''a.mkv'', file_entry ''a (1).mkv''])])
     (ustr_of ''/d'') (ustr_of ''a.mkv'') = ustr_of ''a (2).mkv''" by code_simp
  have h2: "ustr_of ''a (2).mkv'' \<noteq> []" by code_simp
  from unique_name_conflict_safety[where c = table_client and ev = default_env
      and w = "start [(ustr_of ''/d'', [file_entry ''a.mkv'', file_entry ''a (1).mkv''])]"
      and parent = "ustr_of ''/d''" and desired = "ustr_of ''a.mkv''", unfolded Let_def] h1 h2
  show ?thesis by metis
qed

text \<open>
  The claim as first stated, that the desired name is returned unchanged when no entry has
  it, fails for a name that \<open>safe_filename\<close> changes: in an empty directory \<open>a:b\<close> is
  resolved to \<open>a b\<close>.
\<close>

theorem unique_name_conflict_safety_counterexample:
  "unique_name_in_parent table_client default_env (start [(ustr_of ''/d'', [])])
     (ustr_of ''/d'') (ustr_of ''a:b'') = ustr_of ''a b''
   \<and> ustr_of ''a:b'' \<notin> existing_names table_client (start [(ustr_of ''/d'', [])]) (ustr_of ''/d'')"
  by code_simp

lemma unchanged_refl: "unchanged w w"
  by (simp add: unchanged_def)

lemma unchanged_add_log: "unchanged w w' \<Longrightarrow> unchanged w (add_log w' l)"
  by (simp add: unchanged_def add_log_def)

lemma ensure_dir_dry: "unchanged w (fst (ensure_dir c w parent nm True))"
  by (simp add: ensure_dir_def Let_def unchanged_refl unchanged_add_log split: option.splits)

lemma maybe_rename_path_dry:
  "unchanged w (fst (maybe_rename_path c ev w full_path new_name True drn undo))"
  by (simp add: maybe_rename_path_def Let_def unchanged_refl unchanged_add_log split: prod.splits)

lemma maybe_rename_dry:
  "unchanged w (fst (maybe_rename c ev w parent old_name new_name True undo))"
  by (simp add: maybe_rename_def maybe_rename_path_dry)

lemma maybe_move_dry:
  "unchanged w (fst (maybe_move c ev w src_dir dst_dir names True undo))"
  by (simp add: maybe_move_def unchanged_refl unchanged_add_log)

lemma unchanged_trans: "unchanged w w1 \<Longrightarrow> unchanged w1 w2 \<Longrightarrow> unchanged w w2"
  by (simp add: unchanged_def)

lemma maybe_rename_path_dry_ok:
  "\<exists>q. snd (maybe_rename_path c ev w full_path new_name True drn undo) = Inr q"
  by (auto simp: maybe_rename_path_def Let_def split: option.splits prod.splits sum.splits if_splits)

lemma maybe_move_dry_ok:
  "snd (maybe_move c ev w src_dir dst_dir names True undo) = Inr ()"
  by (simp add: maybe_move_def)

lemma maybe_move_dry_eq:
  "maybe_move c ev w s d ns True undo = (w2, r) \<Longrightarrow> unchanged w w2 \<and> r = Inr ()"
  using maybe_move_dry[of w c ev s d ns undo] maybe_move_dry_ok[of c ev w s d ns undo] by simp

lemma maybe_rename_path_dry_eq:
  "maybe_rename_path c ev w p n True drn undo = (w1, r) \<Longrightarrow> unchanged w w1 \<and> (\<exists>q. r = Inr q)"
  using maybe_rename_path_dry[of w c ev p n drn undo] maybe_rename_path_dry_ok[of c ev w p n drn undo]
  by simp

lemma maybe_move_folder_to_dir_eq:
  assumes s: "split_path (norm_path folder) = (sp, nm)"
  shows "maybe_move_folder_to_dir c ev w folder dst dr undo =
     (if nm = [] \<or> norm_path sp = norm_path dst then (w, Inr (norm_path folder))
      else if unique_name_in_parent c ev w (norm_path dst) nm = nm
        then (case maybe_move c ev w sp (norm_path dst) [nm] dr undo of
                (w2, Inl e) \<Rightarrow> (w2, Inl e)
              | (w2, Inr u) \<Rightarrow> (w2, Inr (join_path (norm_path dst) nm)))
      else (case maybe_rename_path c ev w (norm_path folder)
                   (unique_name_in_parent c ev w (norm_path dst) nm) dr True undo of
              (w1, Inl e) \<Rightarrow> (w1, Inl e)
            | (w1, Inr renamed) \<Rightarrow>
                (case maybe_move c ev w1 (fst (split_path renamed)) (norm_path dst)
                        [snd (split_path renamed)] dr undo of
                   (w2, Inl e) \<Rightarrow> (w2, Inl e)
                 | (w2, Inr u) \<Rightarrow> (w2, Inr (join_path (norm_path dst) (snd (split_path renamed)))))))"
  unfolding maybe_move_folder_to_dir_def Let_def s
  by (simp split: prod.splits sum.splits)

lemma maybe_move_folder_to_dir_dry:
  "unchanged w (fst (maybe_move_folder_to_dir c ev w folder dst True undo))"
proof -
  obtain sp nm where s: "split_path (norm_path folder) = (sp, nm)" by (cases "split_path (norm_path folder)")
  show ?thesis
    unfolding maybe_move_folder_to_dir_eq[OF s]
    by (auto simp: unchanged_refl split: prod.splits sum.splits
             dest!: maybe_move_dry_eq maybe_rename_path_dry_eq intro: unchanged_trans)
qed

lemma cleanup_ads_inert: "cleanup_ads_in_dir c ev body w d dr = w"
  by (simp add: cleanup_ads_in_dir_def client_listdir_def)

lemma relocate_inert: "relocate_subtitles_in_show_root c body w sp dr = w"
  by (simp add: relocate_subtitles_in_show_root_def client_listdir_def)

lemma ensure_dir_same_path:
  "snd (ensure_dir c w parent nm False) = Inr q \<Longrightarrow> snd (ensure_dir c w parent nm True) = Inr q"
  by (auto simp: ensure_dir_def Let_def split: option.splits prod.splits sum.splits if_splits)

lemma maybe_rename_path_same_path:
  "snd (maybe_rename_path c ev w full_path new_name False drn undo) = Inr q
   \<Longrightarrow> snd (maybe_rename_path c ev w full_path new_name True True undo) = Inr q"
  by (auto simp: maybe_rename_path_def Let_def split: option.splits prod.splits sum.splits if_splits)

lemma maybe_move_folder_same_path:
  assumes a: "snd (maybe_move_folder_to_dir c ev w folder dst False undo) = Inr q"
  shows "snd (maybe_move_folder_to_dir c ev w folder dst True undo) = Inr q"
proof -
  obtain sp nm where s: "split_path (norm_path folder) = (sp, nm)" by (cases "split_path (norm_path folder)")
  note eq = maybe_move_folder_to_dir_eq[OF s]
  define fin where "fin = unique_name_in_parent c ev w (norm_path dst) nm"
  show ?thesis
  proof (cases "nm = [] \<or> norm_path sp = norm_path dst")
    case True
    with a show ?thesis unfolding eq by simp
  next
    case False
    show ?thesis
    proof (cases "fin = nm")
      case True
      with False a have "q = join_path (norm_path dst) nm"
        unfolding eq fin_def by (auto split: prod.splits sum.splits)
      moreover obtain w2 where "maybe_move c ev w sp (norm_path dst) [nm] True undo = (w2, Inr ())"
        using maybe_move_dry_ok[of c ev w sp "norm_path dst" "[nm]" undo]
        by (cases "maybe_move c ev w sp (norm_path dst) [nm] True undo") auto
      ultimately show ?thesis using False True
        unfolding eq fin_def by simp
    next
      case ne: False
      obtain w1 r1 where r1: "maybe_rename_path c ev w (norm_path folder) fin False True undo = (w1, r1)"
        by (cases "maybe_rename_path c ev w (norm_path folder) fin False True undo")
      from a False ne r1 obtain renamed where ren: "r1 = Inr renamed"
        unfolding eq fin_def[symmetric] by (cases r1) auto
      from a False ne r1 ren have q: "q = join_path (norm_path dst) (snd (split_path renamed))"
        unfolding eq fin_def[symmetric] by (auto split: prod.splits sum.splits)
      obtain w1' where d1: "maybe_rename_path c ev w (norm_path folder) fin True True undo = (w1', Inr renamed)"
        using maybe_rename_path_same_path[of c ev w "norm_path folder" fin True undo renamed] r1 ren
        by (cases "maybe_rename_path c ev w (norm_path folder) fin True True undo") auto
      obtain w2 where "maybe_move c ev w1' (fst (split_path renamed)) (norm_path dst)
                          [snd (split_path renamed)] True undo = (w2, Inr ())"
        using maybe_move_dry_ok[of c ev w1' "fst (split_path renamed)" "norm_path dst"
                                   "[snd (split_path renamed)]" undo]
        by (cases "maybe_move c ev w1' (fst (split_path renamed)) (norm_path dst)
                          [snd (split_path renamed)] True undo") auto
      with False ne d1 q show ?thesis
        unfolding eq fin_def[symmetric] by simp
    qed
  qed
qed

lemma maybe_rename_same_path:
  "snd (maybe_rename c ev w parent old_name new_name False undo) = Inr q
   \<Longrightarrow> snd (maybe_rename c ev w parent old_name new_name True undo) = Inr q"
  unfolding maybe_rename_def by (rule maybe_rename_path_same_path)

text \<open>
  Claim C5 (as amended). With \<open>dry_run\<close> set, none of the operations through which a series
  folder is processed (\<open>ensure_dir\<close>, \<open>maybe_rename_path\<close>, \<open>maybe_rename\<close>, \<open>maybe_move\<close>,
  \<open>maybe_move_folder_to_dir\<close>) makes a mutating call to the collaborator, changes the remote
  state or writes an undo record; \<open>cleanup_ads_in_dir\<close> and \<open>relocate_subtitles_in_show_root\<close>
  change nothing in either mode. Whenever the apply run of \<open>ensure_dir\<close>, of
  \<open>maybe_rename_path\<close>, of \<open>maybe_rename\<close> or of \<open>maybe_move_folder_to_dir\<close> returns a path,
  the dry run from the same state returns the same path, for \<open>maybe_rename_path\<close> provided
  that the dry run is asked for the new path (\<open>dry_return_new\<close>).
\<close>

theorem dry_run_no_mutation:
  "unchanged w (fst (ensure_dir c w parent nm True))
   \<and> unchanged w (fst (maybe_rename_path c ev w full_path new_name True dry_return_new undo))
   \<and> unchanged w (fst (maybe_rename c ev w parent old_name new_name True undo))
   \<and> unchanged w (fst (maybe_move c ev w src_dir dst_dir names True undo))
   \<and> unchanged w (fst (maybe_move_folder_to_dir c ev w folder_path dst_dir True undo))
   \<and> cleanup_ads_in_dir c ev body w dir_path dry_run = w
   \<and> relocate_subtitles_in_show_root c body w series_path dry_run = w
   \<and> (snd (ensure_dir c w parent nm False) = Inr q1
        \<longrightarrow> snd (ensure_dir c w parent nm True) = Inr q1)
   \<and> (snd (maybe_rename_path c ev w full_path new_name False dry_return_new undo) = Inr q2
        \<longrightarrow> snd (maybe_rename_path c ev w full_path new_name True True undo) = Inr q2)
   \<and> (snd (maybe_rename c ev w parent old_name new_name False undo) = Inr q3
        \<longrightarrow> snd (maybe_rename c ev w parent old_name new_name True undo) = Inr q3)
   \<and> (snd (maybe_move_folder_to_dir c ev w folder_path dst_dir False undo) = Inr q4
        \<longrightarrow> snd (maybe_move_folder_to_dir c ev w folder_path dst_dir True undo) = Inr q4)"
  using ensure_dir_dry maybe_rename_path_dry maybe_rename_dry maybe_move_dry
    maybe_move_folder_to_dir_dry cleanup_ads_inert relocate_inert ensure_dir_same_path
    maybe_rename_path_same_path maybe_rename_same_path maybe_move_folder_same_path
  by (intro conjI impI) blast+

text \<open>An instance: renaming the directory \<open>/tv/Old\<close> to \<open>New\<close>.\<close>

theorem dry_run_no_mutation_witness:
  "unchanged (start [(ustr_of ''/tv'', [dir_entry ''Old'']), (ustr_of ''/tv/Old'', [])])
     (fst (maybe_rename_path table_client default_env
             (start [(ustr_of ''/tv'', [dir_entry ''Old'']), (ustr_of ''/tv/Old'', [])])
             (ustr_of ''/tv/Old'') (ustr_of ''New'') True True True))
   \<and> snd (maybe_rename_path table_client default_env
             (start [(ustr_of ''/tv'', [dir_entry ''Old'']), (ustr_of ''/tv/Old'', [])])
             (ustr_of ''/tv/Old'') (ustr_of ''New'') True True True) = Inr (ustr_of ''/tv/New'')"
proof -
  have h: "snd (maybe_rename_path table_client default_env
             (start [(ustr_of ''/tv'', [dir_entry ''Old'']), (ustr_of ''/tv/Old'', [])])
             (ustr_of ''/tv/Old'') (ustr_of ''New'') False True True) = Inr (ustr_of ''/tv/New'')"
    by code_simp
  from dry_run_no_mutation[where c = table_client and ev = default_env
      and w = "start [(ustr_of ''/tv'', [dir_entry ''Old'']), (ustr_of ''/tv/Old'', [])]"
      and full_path = "ustr_of ''/tv/Old''" and new_name = "ustr_of ''New''"
      and dry_return_new = True and undo = True and ?q2.0 = "ustr_of ''/tv/New''"] h
  show ?thesis by blast
qed

text \<open>
  The claim as first stated, that the dry run predicts the paths of the apply run, fails for
  the rename of the series folder itself, which \<open>process_series_folder\<close> makes with
  \<open>dry_return_new = False\<close>: the dry run returns the old path \<open>/tv/Old\<close>, the apply run the new
  path \<open>/tv/New\<close>.
\<close>

theorem dry_run_no_mutation_counterexample:
  "snd (maybe_rename_path table_client default_env
          (start [(ustr_of ''/tv'', [dir_entry ''Old'']), (ustr_of ''/tv/Old'', [])])
          (ustr_of ''/tv/Old'') (ustr_of ''New'') True False True) = Inr (ustr_of ''/tv/Old'')
   \<and> snd (maybe_rename_path table_client default_env
          (start [(ustr_of ''/tv'', [dir_entry ''Old'']), (ustr_of ''/tv/Old'', [])])
          (ustr_of ''/tv/Old'') (ustr_of ''New'') False False True) = Inr (ustr_of ''/tv/New'')"
  by code_simp

section \<open>The similarity is the Levenshtein ratio\<close>


lemma fold_upt_Suc: "a \<le> k \<Longrightarrow> fold f [a..<Suc k] s = f k (fold f [a..<k] s)"
  by simp









end
